theory Spec2Isabelle
  imports Complex_Main "HOL-Library.Word" "HOL-Library.Signed_Division"
begin

section \<open>sqs-consume: the consumer of \<^verbatim>\<open>consumer/consumer.go\<close>\<close>

subsection \<open>Panics\<close>

text \<open>
  A Go run-time panic ends the goroutine (and, unrecovered, the process); it is not a
  return of the function. Every place of the source that can panic is a branch of the
  model that yields one of these values.
\<close>

datatype panic =
    NilDereference    \<comment> \<open>\<^verbatim>\<open>*p\<close> on a nil pointer\<close>
  | DivideByZero      \<comment> \<open>integer division by zero\<close>
  | MakeSliceCap      \<comment> \<open>\<^verbatim>\<open>make\<close> with a negative capacity\<close>
  | SliceBounds       \<comment> \<open>slice bounds out of range\<close>

subsection \<open>\<^verbatim>\<open>chunk\<close> (consumer.go, lines 173 to 187)\<close>

text \<open>
  The \<^verbatim>\<open>for len(rows) >= chunkSize\<close> loop, with the accumulator \<^verbatim>\<open>chunks\<close>, followed by
  the final \<^verbatim>\<open>if len(rows) > 0\<close>. The loop is entered with a positive chunk size only
  (see \<open>chunk\<close> below); the guard \<open>0 < chunkSize\<close> is what makes the recursion
  terminate. The source works on \<^verbatim>\<open>[]types.Message\<close>; nothing in it looks at the elements,
  so the model is polymorphic in them.
\<close>

function chunk_loop :: "'a list \<Rightarrow> nat \<Rightarrow> 'a list list \<Rightarrow> 'a list list" where
  "chunk_loop rows chunkSize chunks =
     (if 0 < chunkSize \<and> chunkSize \<le> length rows
      then chunk_loop (drop chunkSize rows) chunkSize (chunks @ [take chunkSize rows])
      else if 0 < length rows then chunks @ [rows] else chunks)"
  by pat_completeness auto
termination
  by (relation "measure (\<lambda>(rows, chunkSize, chunks). length rows)") auto

declare chunk_loop.simps [simp del]

text \<open>
  \<^verbatim>\<open>chunk(rows, chunkSize)\<close>. The capacity \<^verbatim>\<open>len(rows)/chunkSize+1\<close> is computed first, with
  Go's truncating division: a zero chunk size panics there, a negative capacity panics in
  \<^verbatim>\<open>make\<close>. With a negative chunk size and a capacity that is not negative the loop test
  \<^verbatim>\<open>len(rows) >= chunkSize\<close> holds and \<^verbatim>\<open>rows[:chunkSize]\<close> panics.
\<close>

definition chunk :: "'a list \<Rightarrow> int \<Rightarrow> panic + 'a list list" where
  "chunk rows chunkSize =
     (if chunkSize = 0 then Inl DivideByZero
      else if int (length rows) sdiv chunkSize + 1 < 0 then Inl MakeSliceCap
      else if chunkSize < 0 then Inl SliceBounds
      else Inr (chunk_loop rows (nat chunkSize) []))"

subsection \<open>Errors, constants and configuration\<close>

text \<open>
  Go \<^verbatim>\<open>error\<close> values. The three sentinel errors are the ones \<^verbatim>\<open>NewSQSConsumer\<close> returns;
  every other error (of the transport, of the user's handler) is \<open>OtherError\<close> with its
  text. A nil error is \<open>None\<close> of \<open>go_error option\<close>.
\<close>

datatype go_error =
    SentinelErrorConfigAws
  | SentinelErrorConfigIsNil
  | SentinelErrorQueueNotSet
  | OtherError string

text \<open>
  The package-level constants that \<^verbatim>\<open>consumer.go\<close> uses are declared in another file of the
  package. The functions below take them as the parameter \<open>K\<close>. \<^verbatim>\<open>DeleteStrategy\<close> is a
  string type (the source takes its \<^verbatim>\<open>len\<close> and compares it with constants);
  \<^verbatim>\<open>Concurrency\<close> is a Go \<^verbatim>\<open>int\<close> (compared with the \<^verbatim>\<open>int\<close> counter of \<^verbatim>\<open>Start\<close>), on which no
  arithmetic is done; the other numeric fields are assigned to \<^verbatim>\<open>int32\<close> fields of the SDK's
  request and so are \<^verbatim>\<open>int32\<close>.
\<close>

record constants =
  DeleteStrategyImmediate :: string
  DeleteStrategyOnSuccess :: string
  DefaultConcurrency :: int
  DefaultWaitTimeSeconds :: "32 word"
  DefaultMaxNumberOfMessages :: "32 word"

text \<open>
  \<^verbatim>\<open>SQSConf\<close>, with the fields the source reads and writes. The struct is used through the
  record scheme \<open>'a SQSConf_scheme\<close>, whose extension stands for any further field of the
  declaration.
\<close>

record SQSConf =
  Queue :: string
  Concurrency :: int
  WaitTimeSeconds :: "32 word"
  MaxNumberOfMessages :: "32 word"
  VisibilityTimeout :: "32 word"
  DeleteStrategy :: string

text \<open>
  \<^verbatim>\<open>*SQSConf\<close> is a pointer: the caller of \<^verbatim>\<open>NewSQSConsumer\<close> and the returned \<^verbatim>\<open>SQS\<close> share the
  struct. The store maps every address to the struct it holds (a non-nil Go pointer always
  points to a live struct); a nil pointer is \<open>None\<close> of \<open>addr option\<close>.
\<close>

type_synonym addr = nat

type_synonym 'a store = "addr \<Rightarrow> 'a SQSConf_scheme"

record 'c SQS =
  config :: addr
  sqs :: 'c

subsection \<open>\<^verbatim>\<open>NewSQSConsumer\<close> (consumer.go, lines 17 to 61)\<close>

text \<open>
  What the constructor takes from outside: the process environment (\<^verbatim>\<open>os.Getenv\<close>, the empty
  string for an unset variable), \<^verbatim>\<open>config.LoadDefaultConfig\<close> applied to the region and the
  static credentials (key, secret, session token), and \<^verbatim>\<open>sqs.NewFromConfig\<close>. The two
  \<^verbatim>\<open>slog.Error\<close> calls on the failing paths only write to the log and are left out.
\<close>

record ('cfg, 'c) sdk =
  Getenv :: "string \<Rightarrow> string"
  LoadDefaultConfig :: "string \<Rightarrow> string \<times> string \<times> string \<Rightarrow> go_error + 'cfg"
  NewFromConfig :: "'cfg \<Rightarrow> 'c"

text \<open>
  The result is the returned pair (\<open>Inl\<close> the error, with a nil \<^verbatim>\<open>*SQS\<close>) and the store after
  the call: the four defaulting assignments write through the caller's pointer
  (\<open>fun_upd h p v\<close> is the store \<open>h\<close> with \<open>v\<close> at the address \<open>p\<close>).
\<close>

definition NewSQSConsumer ::
  "constants \<Rightarrow> ('cfg, 'c) sdk \<Rightarrow> 'a store \<Rightarrow> addr option \<Rightarrow> (go_error + 'c SQS) \<times> 'a store" where
  "NewSQSConsumer K env h conf =
     (if Getenv env ''AWS_ACCESS_KEY_ID'' = [] \<or> Getenv env ''AWS_SECRET_ACCESS_KEY'' = []
         \<or> Getenv env ''AWS_REGION'' = []
      then (Inl SentinelErrorConfigAws, h)
      else
        let cred = (Getenv env ''AWS_ACCESS_KEY_ID'', Getenv env ''AWS_SECRET_ACCESS_KEY'', [])
        in case LoadDefaultConfig env (Getenv env ''AWS_REGION'') cred of
             Inl err \<Rightarrow> (Inl SentinelErrorConfigAws, h)
           | Inr awsCfg \<Rightarrow>
               (let sqsClient = NewFromConfig env awsCfg
                in case conf of
                    None \<Rightarrow> (Inl SentinelErrorConfigIsNil, h)
                  | Some p \<Rightarrow>
                      if Queue (h p) = [] then (Inl SentinelErrorQueueNotSet, h)
                      else
                        let h1 = (if length (DeleteStrategy (h p)) = 0
                                  then fun_upd h p ((h p)\<lparr>DeleteStrategy := DeleteStrategyImmediate K\<rparr>)
                                  else h);
                            h2 = (if Concurrency (h1 p) = 0
                                  then fun_upd h1 p ((h1 p)\<lparr>Concurrency := DefaultConcurrency K\<rparr>)
                                  else h1);
                            h3 = (if WaitTimeSeconds (h2 p) = 0
                                  then fun_upd h2 p ((h2 p)\<lparr>WaitTimeSeconds := DefaultWaitTimeSeconds K\<rparr>)
                                  else h2);
                            h4 = (if MaxNumberOfMessages (h3 p) = 0
                                  then fun_upd h3 p ((h3 p)\<lparr>MaxNumberOfMessages :=
                                                           DefaultMaxNumberOfMessages K\<rparr>)
                                  else h3)
                        in (Inr \<lparr>config = p, sqs = sqsClient\<rparr>, h4)))"

subsection \<open>Messages, requests and the transport\<close>

text \<open>
  The SDK's \<^verbatim>\<open>types.Message\<close>: the fields the source reads. \<^verbatim>\<open>MessageId\<close>, \<^verbatim>\<open>ReceiptHandle\<close> and
  \<^verbatim>\<open>Body\<close> are \<^verbatim>\<open>*string\<close> and may be nil.
\<close>

record MessageAttributeValue =
  DataType :: "string option"
  StringValue :: "string option"
  BinaryValue :: "string option"

type_synonym attributes = "string \<rightharpoonup> MessageAttributeValue"

record Message =
  MessageId :: "string option"
  ReceiptHandle :: "string option"
  Body :: "string option"
  MessageAttributes :: attributes

text \<open>\<^verbatim>\<open>sqs.ReceiveMessageInput\<close>, as \<^verbatim>\<open>pullMessagesRequest\<close> fills it.\<close>

record ReceiveMessageInput =
  Receive_MessageSystemAttributeNames :: "string list"
  Receive_MessageAttributeNames :: "string list"
  Receive_QueueUrl :: string
  Receive_MaxNumberOfMessages :: "32 word"
  Receive_VisibilityTimeout :: "32 word"
  Receive_WaitTimeSeconds :: "32 word"

text \<open>
  \<^verbatim>\<open>types.DeleteMessageBatchRequestEntry\<close> and \<^verbatim>\<open>sqs.DeleteMessageBatchInput\<close>. \<^verbatim>\<open>Id\<close> is
  \<^verbatim>\<open>aws.String(*v.MessageId)\<close>, a pointer to a copy and never nil; \<^verbatim>\<open>ReceiptHandle\<close> is the
  message's pointer as it is.
\<close>

record DeleteMessageBatchRequestEntry =
  Entry_Id :: string
  Entry_ReceiptHandle :: "string option"

record DeleteMessageBatchInput =
  Delete_Entries :: "DeleteMessageBatchRequestEntry list"
  Delete_QueueUrl :: string

text \<open>
  Everything a worker does to the outside is an event, appended to the worker's trace in
  the order of execution, with the answer it got: the non-blocking test of \<^verbatim>\<open>ctx.Done()\<close>,
  the two transport calls, \<^verbatim>\<open>time.Sleep\<close> (the duration in nanoseconds, as \<^verbatim>\<open>time.Duration\<close>
  counts), the call of the user's handler (with the body and the attributes passed), and
  \<^verbatim>\<open>slog.Error\<close> (the message and the error whose text is logged).
\<close>

datatype event =
    Done bool
  | ReceiveMessage_call ReceiveMessageInput "go_error + Message list"
  | Sleep int
  | DeleteMessageBatch_call DeleteMessageBatchInput "go_error option"
  | consumeFn_call string attributes "go_error option"
  | slog_Error string go_error

text \<open>
  The outside answers as a function of the trace so far: since the trace grows with every
  event, any sequence of answers is such a function. The transport client \<^verbatim>\<open>s.sqs\<close> gives,
  for \<^verbatim>\<open>ReceiveMessage\<close>, an error or the messages of the output (the SDK returns a non-nil
  output with a nil error) and, for \<^verbatim>\<open>DeleteMessageBatch\<close>, the error or nil (the output is
  discarded by the source). The context is the answer of \<^verbatim>\<open>case <-ctx.Done()\<close>; the handler
  \<^verbatim>\<open>consumeFn\<close> is assumed to return.
\<close>

record sqs_client =
  ReceiveMessage :: "event list \<Rightarrow> ReceiveMessageInput \<Rightarrow> go_error + Message list"
  DeleteMessageBatch :: "event list \<Rightarrow> DeleteMessageBatchInput \<Rightarrow> go_error option"

type_synonym Context = "event list \<Rightarrow> bool"

type_synonym ConsumerFn = "event list \<Rightarrow> string \<Rightarrow> attributes \<Rightarrow> go_error option"

subsection \<open>\<^verbatim>\<open>pullMessagesRequest\<close> (consumer.go, lines 127 to 140)\<close>

text \<open>The worker reads the configuration through the pointer \<^verbatim>\<open>s.config\<close>.\<close>

definition pullMessagesRequest :: "'a store \<Rightarrow> sqs_client SQS \<Rightarrow> ReceiveMessageInput" where
  "pullMessagesRequest h s =
     \<lparr>Receive_MessageSystemAttributeNames = [''All''],
      Receive_MessageAttributeNames = [''All''],
      Receive_QueueUrl = Queue (h (config s)),
      Receive_MaxNumberOfMessages = MaxNumberOfMessages (h (config s)),
      Receive_VisibilityTimeout = VisibilityTimeout (h (config s)),
      Receive_WaitTimeSeconds = WaitTimeSeconds (h (config s))\<rparr>"

subsection \<open>\<^verbatim>\<open>deleteSqsMessages\<close> (consumer.go, lines 142 to 171)\<close>

text \<open>
  The inner loop (lines 150 to 157) builds the batch of one chunk; \<^verbatim>\<open>*v.MessageId\<close> panics on
  a nil \<^verbatim>\<open>MessageId\<close>.
\<close>

fun make_batch :: "Message list \<Rightarrow> panic + DeleteMessageBatchRequestEntry list" where
  "make_batch [] = Inr []"
| "make_batch (v # vs) =
     (case MessageId v of
        None \<Rightarrow> Inl NilDereference
      | Some i \<Rightarrow>
          (case make_batch vs of
             Inl p \<Rightarrow> Inl p
           | Inr batch \<Rightarrow> Inr (\<lparr>Entry_Id = i, Entry_ReceiptHandle = ReceiptHandle v\<rparr> # batch)))"

text \<open>
  The outer loop (lines 149 to 167): one \<^verbatim>\<open>DeleteMessageBatch\<close> call per chunk, stopping at the
  first error. The result is the panic, or the returned error (\<open>None\<close> is nil), and the trace.
\<close>

fun delete_chunks ::
  "'a store \<Rightarrow> sqs_client SQS \<Rightarrow> event list \<Rightarrow> Message list list
     \<Rightarrow> (panic + go_error option) \<times> event list" where
  "delete_chunks h s t [] = (Inr None, t)"
| "delete_chunks h s t (c # chunks) =
     (case make_batch c of
        Inl p \<Rightarrow> (Inl p, t)
      | Inr batch \<Rightarrow>
          (let input = \<lparr>Delete_Entries = batch, Delete_QueueUrl = Queue (h (config s))\<rparr>;
               err = DeleteMessageBatch (sqs s) t input;
               t' = t @ [DeleteMessageBatch_call input err]
           in case err of
                Some e \<Rightarrow> (Inr (Some e), t')
              | None \<Rightarrow> delete_chunks h s t' chunks))"

definition deleteSqsMessages ::
  "'a store \<Rightarrow> sqs_client SQS \<Rightarrow> event list \<Rightarrow> Message list
     \<Rightarrow> (panic + go_error option) \<times> event list" where
  "deleteSqsMessages h s t msg =
     (if length msg = 0 then (Inr None, t)
      else case chunk msg 10 of
             Inl p \<Rightarrow> (Inl p, t)
           | Inr chunks \<Rightarrow> delete_chunks h s t chunks)"

subsection \<open>\<^verbatim>\<open>handleMessages\<close> (consumer.go, lines 84 to 125)\<close>

text \<open>
  The loop over the received messages (lines 107 to 117), with the accumulator
  \<^verbatim>\<open>toDelete\<close>. \<^verbatim>\<open>*msg.Body\<close> panics on a nil \<^verbatim>\<open>Body\<close>. The result is the panic with the trace
  up to it, or the final \<^verbatim>\<open>toDelete\<close> and trace.
\<close>

fun consume_messages ::
  "constants \<Rightarrow> 'a store \<Rightarrow> sqs_client SQS \<Rightarrow> ConsumerFn \<Rightarrow> event list \<Rightarrow> Message list
     \<Rightarrow> Message list \<Rightarrow> (panic \<times> event list) + (Message list \<times> event list)" where
  "consume_messages K h s consumeFn t toDelete [] = Inr (toDelete, t)"
| "consume_messages K h s consumeFn t toDelete (msg # msgs) =
     (case Body msg of
        None \<Rightarrow> Inl (NilDereference, t)
      | Some body \<Rightarrow>
          (let err = consumeFn t body (MessageAttributes msg);
               t' = t @ [consumeFn_call body (MessageAttributes msg) err]
           in case err of
                Some e \<Rightarrow>
                  consume_messages K h s consumeFn
                    (t' @ [slog_Error ''error in consume function'' e]) toDelete msgs
              | None \<Rightarrow>
                  if DeleteStrategy (h (config s)) = DeleteStrategyOnSuccess K
                  then consume_messages K h s consumeFn t' (toDelete @ [msg]) msgs
                  else consume_messages K h s consumeFn t' toDelete msgs))"

text \<open>How a worker ends: a return (\<open>None\<close> is nil) or a panic.\<close>

datatype exit = Returned "go_error option" | Panicked panic

text \<open>Lines 107 to 121: the handler loop, then the deletion of \<^verbatim>\<open>toDelete\<close>.\<close>

definition process_and_delete ::
  "constants \<Rightarrow> 'a store \<Rightarrow> sqs_client SQS \<Rightarrow> ConsumerFn \<Rightarrow> event list \<Rightarrow> Message list
     \<Rightarrow> exit option \<times> event list" where
  "process_and_delete K h s consumeFn t msgs =
     (case consume_messages K h s consumeFn t [] msgs of
        Inl (p, t') \<Rightarrow> (Some (Panicked p), t')
      | Inr (toDelete, t') \<Rightarrow>
          (case deleteSqsMessages h s t' toDelete of
             (Inl p, t'') \<Rightarrow> (Some (Panicked p), t'')
           | (Inr (Some err), t'') \<Rightarrow> (Some (Returned (Some err)), t'')
           | (Inr None, t'') \<Rightarrow> (None, t'')))"

text \<open>
  One pass through the body of the \<^verbatim>\<open>for\<close> (lines 86 to 123). \<open>None\<close> in the result: the body
  ran to its end or to \<^verbatim>\<open>continue\<close>, and the loop goes on. \<^verbatim>\<open>1 * time.Second\<close> is
  \<open>1000000000\<close> nanoseconds.
\<close>

definition handleMessages_body ::
  "constants \<Rightarrow> 'a store \<Rightarrow> sqs_client SQS \<Rightarrow> Context \<Rightarrow> ConsumerFn \<Rightarrow> event list
     \<Rightarrow> exit option \<times> event list" where
  "handleMessages_body K h s ctx consumeFn t =
     (if ctx t then (Some (Returned None), t @ [Done True])
      else
        let t0 = t @ [Done False];
            request = pullMessagesRequest h s;
            result = ReceiveMessage (sqs s) t0 request;
            t1 = t0 @ [ReceiveMessage_call request result]
        in case result of
             Inl err \<Rightarrow> (Some (Returned (Some err)), t1)
           | Inr messages \<Rightarrow>
               if length messages = 0 then (None, t1 @ [Sleep (1 * 1000000000)])
               else if DeleteStrategy (h (config s)) = DeleteStrategyImmediate K
               then (case deleteSqsMessages h s t1 messages of
                       (Inl p, t2) \<Rightarrow> (Some (Panicked p), t2)
                     | (Inr (Some err), t2) \<Rightarrow> (Some (Returned (Some err)), t2)
                     | (Inr None, t2) \<Rightarrow> process_and_delete K h s consumeFn t2 messages)
               else process_and_delete K h s consumeFn t1 messages)"

text \<open>
  The \<^verbatim>\<open>for\<close> loop has no bound. \<open>handleMessages\<close> runs at most \<open>fuel\<close> passes of it: \<open>None\<close> in
  the result says that the worker is still running after them.
\<close>

fun handleMessages ::
  "constants \<Rightarrow> 'a store \<Rightarrow> sqs_client SQS \<Rightarrow> Context \<Rightarrow> ConsumerFn \<Rightarrow> nat \<Rightarrow> event list
     \<Rightarrow> exit option \<times> event list" where
  "handleMessages K h s ctx consumeFn 0 t = (None, t)"
| "handleMessages K h s ctx consumeFn (Suc fuel) t =
     (case handleMessages_body K h s ctx consumeFn t of
        (None, t') \<Rightarrow> handleMessages K h s ctx consumeFn fuel t'
      | (Some x, t') \<Rightarrow> (Some x, t'))"

subsection \<open>Reading a trace\<close>

text \<open>The entries of the delete calls of a trace, in the order submitted.\<close>

fun submitted :: "event list \<Rightarrow> DeleteMessageBatchRequestEntry list" where
  "submitted [] = []"
| "submitted (DeleteMessageBatch_call input err # es) = Delete_Entries input @ submitted es"
| "submitted (_ # es) = submitted es"

text \<open>The handler calls of a trace (body and attributes), and their results.\<close>

fun handler_calls :: "event list \<Rightarrow> (string \<times> attributes) list" where
  "handler_calls [] = []"
| "handler_calls (consumeFn_call body attrs err # es) = (body, attrs) # handler_calls es"
| "handler_calls (_ # es) = handler_calls es"

fun handler_results :: "event list \<Rightarrow> go_error option list" where
  "handler_results [] = []"
| "handler_results (consumeFn_call body attrs err # es) = err # handler_results es"
| "handler_results (_ # es) = handler_results es"

fun is_delete :: "event \<Rightarrow> bool" where
  "is_delete (DeleteMessageBatch_call input err) = True"
| "is_delete _ = False"

fun is_consume :: "event \<Rightarrow> bool" where
  "is_consume (consumeFn_call body attrs err) = True"
| "is_consume _ = False"

fun is_log :: "event \<Rightarrow> bool" where
  "is_log (slog_Error text e) = True"
| "is_log _ = False"






text \<open>A receive call that answered with no message.\<close>

fun empty_receive :: "event \<Rightarrow> bool" where
  "empty_receive (ReceiveMessage_call request (Inr [])) = True"
| "empty_receive _ = False"

text \<open>
  In a trace, every receive call that answered with no message is followed at once by a
  sleep of one second.
\<close>

definition sleeps_when_idle :: "event list \<Rightarrow> bool" where
  "sleeps_when_idle es \<longleftrightarrow>
     (\<forall>i. i < length es \<and> empty_receive (es ! i) \<longrightarrow>
          Suc i < length es \<and> es ! Suc i = Sleep 1000000000)"

text \<open>The messages of a batch whose handler result is nil, in the order of the batch.\<close>

definition successes :: "Message list \<Rightarrow> go_error option list \<Rightarrow> Message list" where
  "successes msgs results = map fst (filter (\<lambda>(m, r). r = None) (zip msgs results))"

subsection \<open>The configuration after defaulting\<close>

text \<open>
  A configuration with its four optional fields defaulted where they are unset: the empty
  string for the delete strategy, zero for the numeric fields.
\<close>

definition defaulted :: "constants \<Rightarrow> 'a SQSConf_scheme \<Rightarrow> 'a SQSConf_scheme" where
  "defaulted K c =
     c\<lparr>DeleteStrategy :=
         (if DeleteStrategy c = [] then DeleteStrategyImmediate K else DeleteStrategy c),
       Concurrency := (if Concurrency c = 0 then DefaultConcurrency K else Concurrency c),
       WaitTimeSeconds :=
         (if WaitTimeSeconds c = 0 then DefaultWaitTimeSeconds K else WaitTimeSeconds c),
       MaxNumberOfMessages :=
         (if MaxNumberOfMessages c = 0 then DefaultMaxNumberOfMessages K
          else MaxNumberOfMessages c)\<rparr>"

subsection \<open>Concrete inputs\<close>

text \<open>
  Values on which the theorems below are evaluated: constants (the numeric defaults of the
  specification's table, two distinct strategy names), an environment in which the AWS
  variables are set and the SDK configuration loads, and an all-unset, a fully set and an
  oddly set configuration.
\<close>

definition example_constants :: constants where
  "example_constants =
     \<lparr>DeleteStrategyImmediate = ''IMMEDIATE'', DeleteStrategyOnSuccess = ''SUCCESS'',
      DefaultConcurrency = 5, DefaultWaitTimeSeconds = 10, DefaultMaxNumberOfMessages = 10\<rparr>"

definition example_sdk :: "(unit, unit) sdk" where
  "example_sdk =
     \<lparr>Getenv = (\<lambda>name. ''set''), LoadDefaultConfig = (\<lambda>region cred. Inr ()),
      NewFromConfig = (\<lambda>cfg. ())\<rparr>"

definition unset_conf :: SQSConf where
  "unset_conf =
     \<lparr>Queue = ''jobs'', Concurrency = 0, WaitTimeSeconds = 0, MaxNumberOfMessages = 0,
      VisibilityTimeout = 30, DeleteStrategy = []\<rparr>"

definition set_conf :: SQSConf where
  "set_conf =
     \<lparr>Queue = ''jobs'', Concurrency = 2, WaitTimeSeconds = 3, MaxNumberOfMessages = 4,
      VisibilityTimeout = 30, DeleteStrategy = ''SUCCESS''\<rparr>"

definition odd_conf :: SQSConf where
  "odd_conf = unset_conf\<lparr>DeleteStrategy := ''LATER''\<rparr>"

text \<open>Stores in which every address holds the same configuration.\<close>

definition unset_store :: "unit store" where
  "unset_store = (\<lambda>a. unset_conf)"

definition set_store :: "unit store" where
  "set_store = (\<lambda>a. set_conf)"

definition odd_store :: "unit store" where
  "odd_store = (\<lambda>a. odd_conf)"

text \<open>
  Workers on one queue: three messages, of which the handler fails on the second; a
  transport that delivers them on the first poll, nothing afterwards, and accepts every
  deletion; a transport that delivers them on every poll and fails every deletion; a
  context cancelled once the trace has ten events.
\<close>

definition msg_A :: Message where
  "msg_A = \<lparr>MessageId = Some ''A'', ReceiptHandle = Some ''ra'', Body = Some ''a'',
            MessageAttributes = Map.empty\<rparr>"

definition msg_B :: Message where
  "msg_B = \<lparr>MessageId = Some ''B'', ReceiptHandle = Some ''rb'', Body = Some ''b'',
            MessageAttributes = Map.empty\<rparr>"

definition msg_C :: Message where
  "msg_C = \<lparr>MessageId = Some ''C'', ReceiptHandle = Some ''rc'', Body = Some ''c'',
            MessageAttributes = Map.empty\<rparr>"

definition example_client :: sqs_client where
  "example_client =
     \<lparr>ReceiveMessage = (\<lambda>t request. if length t \<le> 1 then Inr [msg_A, msg_B, msg_C] else Inr []),
      DeleteMessageBatch = (\<lambda>t input. None)\<rparr>"


definition example_worker :: "sqs_client SQS" where
  "example_worker = \<lparr>config = 0, sqs = example_client\<rparr>"


text \<open>A worker on a queue that stays empty.\<close>

definition idle_worker :: "sqs_client SQS" where
  "idle_worker =
     \<lparr>config = 0,
      sqs = \<lparr>ReceiveMessage = (\<lambda>t request. Inr []), DeleteMessageBatch = (\<lambda>t input. None)\<rparr>\<rparr>"

definition example_ctx :: Context where
  "example_ctx t = (10 \<le> length t)"

definition example_handler :: ConsumerFn where
  "example_handler t body attrs = (if body = ''b'' then Some (OtherError ''boom'') else None)"


subsection \<open>Properties of \<^verbatim>\<open>chunk\<close>\<close>

lemma chunk_loop_step:
  "0 < k \<Longrightarrow> k \<le> length rows \<Longrightarrow>
   chunk_loop rows k acc = chunk_loop (drop k rows) k (acc @ [take k rows])"
  by (subst chunk_loop.simps) simp

lemma chunk_loop_stop:
  "\<not> (0 < k \<and> k \<le> length rows) \<Longrightarrow>
   chunk_loop rows k acc = (if rows = [] then acc else acc @ [rows])"
  by (subst chunk_loop.simps) auto

lemma chunk_loop_acc:
  "chunk_loop rows k acc = acc @ chunk_loop rows k []"
proof (induction "length rows" arbitrary: rows acc rule: less_induct)
  case less
  show ?case
  proof (cases "0 < k \<and> k \<le> length rows")
    case True
    then have shorter: "length (drop k rows) < length rows" by auto
    have "chunk_loop rows k acc = (acc @ [take k rows]) @ chunk_loop (drop k rows) k []"
      using True less [OF shorter, of "acc @ [take k rows]"] by (simp add: chunk_loop_step)
    moreover have "chunk_loop rows k [] = [take k rows] @ chunk_loop (drop k rows) k []"
      using True less [OF shorter, of "[take k rows]"] by (simp add: chunk_loop_step)
    ultimately show ?thesis by simp
  next
    case False
    then show ?thesis by (simp add: chunk_loop_stop)
  qed
qed

lemma chunk_loop_unfold:
  "chunk_loop rows k [] =
     (if 0 < k \<and> k \<le> length rows then take k rows # chunk_loop (drop k rows) k []
      else if rows = [] then [] else [rows])"
proof (cases "0 < k \<and> k \<le> length rows")
  case True
  then have "chunk_loop rows k [] = chunk_loop (drop k rows) k [take k rows]"
    by (simp add: chunk_loop_step)
  then show ?thesis using True chunk_loop_acc [of "drop k rows" k "[take k rows]"] by simp
next
  case False
  then show ?thesis by (auto simp add: chunk_loop_stop)
qed

lemma step_div:
  assumes "0 < (k::nat)" "k \<le> n"
  shows "(n + k - 1) div k = Suc ((n - k + k - 1) div k)"
proof -
  have "n + k - 1 = (n - 1) + k" using assms by simp
  moreover have "((n - 1) + k) div k = (n - 1) div k + 1"
    by (rule div_add_self2) (use assms in simp)
  moreover have "n - k + k - 1 = n - 1" using assms by simp
  ultimately show ?thesis by (simp only: Suc_eq_plus1)
qed


lemma concat_chunk_loop: "concat (chunk_loop rows k []) = rows"
proof (induction "length rows" arbitrary: rows rule: less_induct)
  case less
  show ?case
  proof (cases "0 < k \<and> k \<le> length rows")
    case True
    then have "length (drop k rows) < length rows" by auto
    then have "concat (chunk_loop (drop k rows) k []) = drop k rows" by (rule less)
    then show ?thesis using True by (subst chunk_loop_unfold) simp
  next
    case False
    then show ?thesis by (subst chunk_loop_unfold) auto
  qed
qed

lemma ceil_div_nat:
  assumes "0 < (k::nat)"
  shows "nat \<lceil>real n / real k\<rceil> = (n + k - 1) div k"
proof -
  define m where "m = (n + k - 1) div k"
  have e: "m * k + (n + k - 1) mod k = n + k - 1"
    unfolding m_def by (rule div_mult_mod_eq)
  have r: "(n + k - 1) mod k < k" using assms by simp
  have up: "n \<le> m * k" using e r assms by linarith
  have lo: "m * k < n + k" using e assms by linarith
  have kpos: "0 < real k" using assms by simp
  have "real n \<le> real (m * k)" using up by (simp only: of_nat_le_iff)
  then have u: "real n / real k \<le> real m" using kpos by (simp add: pos_divide_le_eq)
  have "real (m * k) < real (n + k)" using lo by (simp only: of_nat_less_iff)
  then have "(real m - 1) * real k < real n" by (simp add: algebra_simps)
  then have l: "real m - 1 < real n / real k" using kpos by (simp add: pos_less_divide_eq)
  have "\<lceil>real n / real k\<rceil> = int m"
    by (rule ceiling_unique) (use u l in simp_all)
  then show ?thesis by (simp add: m_def)
qed

lemma small_div:
  assumes "0 < (n::nat)" "n < k"
  shows "(n + k - 1) div k = 1"
proof -
  have "n + k - 1 = (n - 1) + k" using assms by simp
  moreover have "((n - 1) + k) div k = (n - 1) div k + 1"
    by (rule div_add_self2) (use assms in simp)
  moreover have "(n - 1) div k = 0" using assms by simp
  ultimately show ?thesis by (simp only: add_0)
qed

lemma length_chunk_loop:
  "0 < k \<Longrightarrow> length (chunk_loop rows k []) = (length rows + k - 1) div k"
proof (induction "length rows" arbitrary: rows rule: less_induct)
  case less
  show ?case
  proof (cases "k \<le> length rows")
    case True
    then have "length (drop k rows) < length rows" using less.prems by auto
    then have "length (chunk_loop (drop k rows) k []) = (length (drop k rows) + k - 1) div k"
      using less.prems by (intro less) auto
    moreover have "(length rows + k - 1) div k = Suc ((length rows - k + k - 1) div k)"
      using True less.prems by (rule step_div [rotated])
    moreover have "chunk_loop rows k [] = take k rows # chunk_loop (drop k rows) k []"
      using True less.prems by (subst chunk_loop_unfold) simp
    ultimately show ?thesis by simp
  next
    case False
    then have "chunk_loop rows k [] = (if rows = [] then [] else [rows])"
      by (subst chunk_loop_unfold) simp
    moreover have "rows \<noteq> [] \<Longrightarrow> (length rows + k - 1) div k = 1"
      using False by (intro small_div) auto
    ultimately show ?thesis using less.prems by auto
  qed
qed


lemma butlast_chunk_loop:
  "0 < k \<Longrightarrow> c \<in> set (butlast (chunk_loop rows k [])) \<Longrightarrow> length c = k"
proof (induction "length rows" arbitrary: rows rule: less_induct)
  case less
  show ?case
  proof (cases "k \<le> length rows")
    case True
    then have shorter: "length (drop k rows) < length rows" using less.prems by auto
    have u: "chunk_loop rows k [] = take k rows # chunk_loop (drop k rows) k []"
      using True less.prems by (subst chunk_loop_unfold) simp
    from less.prems(2) have "c = take k rows \<or> c \<in> set (butlast (chunk_loop (drop k rows) k []))"
      by (simp only: u butlast.simps split: if_splits) auto
    then show ?thesis
    proof
      assume "c = take k rows"
      then show ?thesis using True by simp
    next
      assume "c \<in> set (butlast (chunk_loop (drop k rows) k []))"
      with less.hyps [OF shorter less.prems(1)] show ?thesis .
    qed
  next
    case False
    then have u: "chunk_loop rows k [] = (if rows = [] then [] else [rows])"
      by (subst chunk_loop_unfold) simp
    from less.prems(2) show ?thesis by (simp only: u split: if_splits) simp_all
  qed
qed

lemma last_chunk_loop:
  "0 < k \<Longrightarrow> chunk_loop rows k [] \<noteq> [] \<Longrightarrow>
   1 \<le> length (last (chunk_loop rows k [])) \<and> length (last (chunk_loop rows k [])) \<le> k"
proof (induction "length rows" arbitrary: rows rule: less_induct)
  case less
  show ?case
  proof (cases "k \<le> length rows")
    case True
    then have shorter: "length (drop k rows) < length rows" using less.prems by auto
    have u: "chunk_loop rows k [] = take k rows # chunk_loop (drop k rows) k []"
      using True less.prems by (subst chunk_loop_unfold) simp
    show ?thesis
    proof (cases "chunk_loop (drop k rows) k [] = []")
      case True
      then have "last (chunk_loop rows k []) = take k rows" by (simp add: u)
      then show ?thesis using \<open>k \<le> length rows\<close> less.prems(1) by simp
    next
      case False
      then have "last (chunk_loop rows k []) = last (chunk_loop (drop k rows) k [])"
        by (simp add: u)
      then show ?thesis using less.hyps [OF shorter less.prems(1) False] by simp
    qed
  next
    case False
    then have u: "chunk_loop rows k [] = (if rows = [] then [] else [rows])"
      by (subst chunk_loop_unfold) simp
    have "rows \<noteq> []" using less.prems(2) by (simp add: u split: if_splits)
    then have "last (chunk_loop rows k []) = rows" by (simp add: u)
    then show ?thesis using False \<open>rows \<noteq> []\<close> by (simp add: Suc_le_eq)
  qed
qed

lemma chunk_positive:
  "1 \<le> k \<Longrightarrow> chunk rows k = Inr (chunk_loop rows (nat k) [])"
proof -
  assume k: "1 \<le> k"
  have "0 \<le> int (length rows) sdiv k"
    using k by (simp add: signed_divide_int_def sgn_if pos_imp_zdiv_nonneg_iff)
  then show ?thesis using k by (simp add: chunk_def)
qed

text \<open>
  Claim C3. For every input sequence of length \<open>n\<close> and every chunk size \<open>k \<ge> 1\<close>, \<^verbatim>\<open>chunk\<close>
  returns (it does not panic) \<open>\<lceil>n / k\<rceil>\<close> chunks; every chunk but the last holds exactly
  \<open>k\<close> items and the last holds between \<open>1\<close> and \<open>k\<close>; the concatenation of the chunks is the
  input, in order, with nothing lost or duplicated; and the empty input gives no chunk.
\<close>

theorem chunk_correct:
  assumes "1 \<le> chunkSize"
  shows "\<exists>chunks. chunk rows chunkSize = Inr chunks
     \<and> length chunks = nat \<lceil>real (length rows) / real_of_int chunkSize\<rceil>
     \<and> (\<forall>c \<in> set (butlast chunks). int (length c) = chunkSize)
     \<and> (chunks \<noteq> [] \<longrightarrow> 1 \<le> length (last chunks) \<and> int (length (last chunks)) \<le> chunkSize)
     \<and> concat chunks = rows
     \<and> chunk ([] :: 'a list) chunkSize = Inr []"
proof -
  define k where "k = nat chunkSize"
  have k: "0 < k" "chunkSize = int k" using assms by (simp_all add: k_def)
  have c: "chunk rows chunkSize = Inr (chunk_loop rows k [])"
    using assms by (simp add: chunk_positive k_def)
  have e: "chunk ([] :: 'a list) chunkSize = Inr []"
    using assms by (simp add: chunk_positive chunk_loop_stop)
  have l: "length (chunk_loop rows k []) = nat \<lceil>real (length rows) / real_of_int chunkSize\<rceil>"
    using k by (simp add: length_chunk_loop ceil_div_nat)
  have b: "\<forall>c \<in> set (butlast (chunk_loop rows k [])). int (length c) = chunkSize"
    using k butlast_chunk_loop [of k _ rows] by simp
  have t: "chunk_loop rows k [] \<noteq> [] \<longrightarrow>
      1 \<le> length (last (chunk_loop rows k [])) \<and> int (length (last (chunk_loop rows k []))) \<le> chunkSize"
    using k last_chunk_loop [of k rows] by simp
  show ?thesis
    using c e l b t concat_chunk_loop [of rows k] by blast
qed

theorem chunk_correct_witness:
  "(1::int) \<le> 3 \<and> (\<exists>chunks. chunk [1, 2, 3, 4, 5, 6, 7 :: nat] 3 = Inr chunks
     \<and> length chunks = 3
     \<and> (\<forall>c \<in> set (butlast chunks). length c = 3)
     \<and> 1 \<le> length (last chunks) \<and> length (last chunks) \<le> 3
     \<and> concat chunks = [1, 2, 3, 4, 5, 6, 7])"
proof -
  have h: "(1::int) \<le> 3" by simp
  obtain chunks where c: "chunk [1, 2, 3, 4, 5, 6, 7 :: nat] 3 = Inr chunks"
     "length chunks = nat \<lceil>real (length [1, 2, 3, 4, 5, 6, 7 :: nat]) / real_of_int 3\<rceil>"
     "\<forall>c \<in> set (butlast chunks). int (length c) = 3"
     "chunks \<noteq> [] \<longrightarrow> 1 \<le> length (last chunks) \<and> int (length (last chunks)) \<le> 3"
     "concat chunks = [1, 2, 3, 4, 5, 6, 7]"
    using chunk_correct [OF h, of "[1, 2, 3, 4, 5, 6, 7 :: nat]"] by blast
  from c(2) have "length chunks = 3" by simp
  moreover from this c(4) have "1 \<le> length (last chunks) \<and> length (last chunks) \<le> 3"
    by auto
  ultimately show ?thesis using c(1,3,5) by auto
qed

subsection \<open>Properties of \<^verbatim>\<open>NewSQSConsumer\<close>\<close>

lemma defaulting_steps:
  "(let h1 = (if length (DeleteStrategy (h p)) = 0
              then fun_upd h p ((h p)\<lparr>DeleteStrategy := DeleteStrategyImmediate K\<rparr>)
              else h);
        h2 = (if Concurrency (h1 p) = 0
              then fun_upd h1 p ((h1 p)\<lparr>Concurrency := DefaultConcurrency K\<rparr>)
              else h1);
        h3 = (if WaitTimeSeconds (h2 p) = 0
              then fun_upd h2 p ((h2 p)\<lparr>WaitTimeSeconds := DefaultWaitTimeSeconds K\<rparr>)
              else h2);
        h4 = (if MaxNumberOfMessages (h3 p) = 0
              then fun_upd h3 p ((h3 p)\<lparr>MaxNumberOfMessages := DefaultMaxNumberOfMessages K\<rparr>)
              else h3)
    in f h4) = f (fun_upd h p (defaulted K (h p)))"
  by (simp add: Let_def defaulted_def fun_upd_idem_iff)

lemma NewSQSConsumer_success:
  assumes "NewSQSConsumer K env h conf = (Inr s, h')"
  shows "\<exists>p. conf = Some p \<and> config s = p \<and> Queue (h p) \<noteq> []
           \<and> h' = fun_upd h p (defaulted K (h p))"
  using assms unfolding NewSQSConsumer_def defaulting_steps
  by (auto simp: Let_def split: if_splits sum.splits option.splits)

lemma NewSQSConsumer_returns:
  assumes "Getenv env ''AWS_ACCESS_KEY_ID'' \<noteq> []" "Getenv env ''AWS_SECRET_ACCESS_KEY'' \<noteq> []"
    and "Getenv env ''AWS_REGION'' \<noteq> []"
    and "LoadDefaultConfig env (Getenv env ''AWS_REGION'')
           (Getenv env ''AWS_ACCESS_KEY_ID'', Getenv env ''AWS_SECRET_ACCESS_KEY'', []) = Inr cfg"
    and "Queue (h p) \<noteq> []"
  shows "NewSQSConsumer K env h (Some p) =
     (Inr \<lparr>config = p, sqs = NewFromConfig env cfg\<rparr>, fun_upd h p (defaulted K (h p)))"
  unfolding NewSQSConsumer_def defaulting_steps using assms by (simp add: Let_def)

lemma NewSQSConsumer_example:
  assumes "Queue (h 0) \<noteq> []"
  shows "NewSQSConsumer K example_sdk h (Some 0) =
     (Inr \<lparr>config = 0, sqs = ()\<rparr>, fun_upd h 0 (defaulted K (h 0)))"
  using NewSQSConsumer_returns [of example_sdk "()" h 0 K] assms
  by (simp add: example_sdk_def)

text \<open>
  Claim C8. When construction succeeds, the configuration of the returned pool holds, for
  each of the four optional fields, the default where the supplied value was unset (the
  empty delete strategy, zero concurrency, zero wait time, zero maximum of messages per
  poll) and the supplied value where it was not.
\<close>

theorem NewSQSConsumer_defaults:
  assumes "NewSQSConsumer K env h conf = (Inr s, h')"
  shows "\<exists>p. conf = Some p
     \<and> DeleteStrategy (h' (config s)) =
         (if DeleteStrategy (h p) = [] then DeleteStrategyImmediate K else DeleteStrategy (h p))
     \<and> Concurrency (h' (config s)) =
         (if Concurrency (h p) = 0 then DefaultConcurrency K else Concurrency (h p))
     \<and> WaitTimeSeconds (h' (config s)) =
         (if WaitTimeSeconds (h p) = 0 then DefaultWaitTimeSeconds K else WaitTimeSeconds (h p))
     \<and> MaxNumberOfMessages (h' (config s)) =
         (if MaxNumberOfMessages (h p) = 0 then DefaultMaxNumberOfMessages K
          else MaxNumberOfMessages (h p))"
proof -
  obtain p where p: "conf = Some p" "config s = p" "h' = fun_upd h p (defaulted K (h p))"
    using NewSQSConsumer_success [OF assms] by blast
  have "h' (config s) = defaulted K (h p)" using p by simp
  then show ?thesis using p(1) by (simp add: defaulted_def)
qed

theorem NewSQSConsumer_defaults_witness:
  "fst (NewSQSConsumer example_constants example_sdk unset_store (Some 0))
     = Inr \<lparr>config = 0, sqs = ()\<rparr>
   \<and> DeleteStrategy (snd (NewSQSConsumer example_constants example_sdk unset_store (Some 0)) 0)
     = ''IMMEDIATE''
   \<and> Concurrency (snd (NewSQSConsumer example_constants example_sdk unset_store (Some 0)) 0) = 5
   \<and> WaitTimeSeconds (snd (NewSQSConsumer example_constants example_sdk unset_store (Some 0)) 0)
     = 10
   \<and> MaxNumberOfMessages
       (snd (NewSQSConsumer example_constants example_sdk unset_store (Some 0)) 0) = 10"
proof -
  have e: "NewSQSConsumer example_constants example_sdk unset_store (Some 0) =
      (Inr \<lparr>config = 0, sqs = ()\<rparr>,
       fun_upd unset_store 0 (defaulted example_constants (unset_store 0)))"
    by (rule NewSQSConsumer_example) (simp add: unset_store_def unset_conf_def)
  show ?thesis
    using NewSQSConsumer_defaults [OF e] unfolding e
    by (simp add: unset_store_def unset_conf_def example_constants_def)
qed

text \<open>
  Claim C10. When construction succeeds, the returned pool holds the very pointer the
  caller passed; the struct behind that pointer is the caller's struct with the four
  optional fields defaulted, so the caller sees the defaults through its own pointer; the
  queue, the visibility timeout and every further field of that struct are as before; and
  no other struct of the store is written.
\<close>

theorem NewSQSConsumer_writes_in_place:
  assumes "NewSQSConsumer K env h conf = (Inr s, h')"
  shows "conf = Some (config s)
     \<and> h' (config s) = defaulted K (h (config s))
     \<and> Queue (h' (config s)) = Queue (h (config s))
     \<and> VisibilityTimeout (h' (config s)) = VisibilityTimeout (h (config s))
     \<and> SQSConf.more (h' (config s)) = SQSConf.more (h (config s))
     \<and> (\<forall>q. q \<noteq> config s \<longrightarrow> h' q = h q)"
proof -
  obtain p where p: "conf = Some p" "config s = p" "h' = fun_upd h p (defaulted K (h p))"
    using NewSQSConsumer_success [OF assms] by blast
  show ?thesis using p by (simp add: defaulted_def)
qed

theorem NewSQSConsumer_writes_in_place_witness:
  "fst (NewSQSConsumer example_constants example_sdk unset_store (Some 0))
     = Inr \<lparr>config = 0, sqs = ()\<rparr>
   \<and> Concurrency (snd (NewSQSConsumer example_constants example_sdk unset_store (Some 0)) 0) = 5
   \<and> Queue (snd (NewSQSConsumer example_constants example_sdk unset_store (Some 0)) 0) = ''jobs''
   \<and> VisibilityTimeout
       (snd (NewSQSConsumer example_constants example_sdk unset_store (Some 0)) 0) = 30
   \<and> snd (NewSQSConsumer example_constants example_sdk unset_store (Some 0)) 1 = unset_conf"
proof -
  have e: "NewSQSConsumer example_constants example_sdk unset_store (Some 0) =
      (Inr \<lparr>config = 0, sqs = ()\<rparr>,
       fun_upd unset_store 0 (defaulted example_constants (unset_store 0)))"
    by (rule NewSQSConsumer_example) (simp add: unset_store_def unset_conf_def)
  show ?thesis
    using NewSQSConsumer_writes_in_place [OF e] unfolding e
    by (simp add: unset_store_def unset_conf_def example_constants_def defaulted_def)
qed

text \<open>
  Claim C6, as stated, fails: a delete strategy that is neither of the two constants and
  is not empty is kept by the constructor, not replaced by \<^verbatim>\<open>DeleteStrategyImmediate\<close>.
\<close>

theorem NewSQSConsumer_keeps_unrecognized_strategy:
  "fst (NewSQSConsumer example_constants example_sdk odd_store (Some 0))
     = Inr \<lparr>config = 0, sqs = ()\<rparr>
   \<and> DeleteStrategy (odd_store 0) \<noteq> DeleteStrategyImmediate example_constants
   \<and> DeleteStrategy (odd_store 0) \<noteq> DeleteStrategyOnSuccess example_constants
   \<and> DeleteStrategy (snd (NewSQSConsumer example_constants example_sdk odd_store (Some 0)) 0)
     \<noteq> DeleteStrategyImmediate example_constants"
proof -
  have e: "NewSQSConsumer example_constants example_sdk odd_store (Some 0) =
      (Inr \<lparr>config = 0, sqs = ()\<rparr>,
       fun_upd odd_store 0 (defaulted example_constants (odd_store 0)))"
    by (rule NewSQSConsumer_example) (simp add: odd_store_def odd_conf_def unset_conf_def)
  show ?thesis
    unfolding e
    by (simp add: odd_store_def odd_conf_def unset_conf_def example_constants_def defaulted_def)
qed

text \<open>
  Claim C6, amended. The constructor replaces the delete strategy by
  \<^verbatim>\<open>DeleteStrategyImmediate\<close> exactly when it is unset (the empty string) and keeps every
  other value, recognized or not; and whether construction fails, and with which error,
  does not depend on the delete strategy of the configuration.
\<close>

theorem NewSQSConsumer_strategy_default:
  "(\<forall>s h'. NewSQSConsumer K env h conf = (Inr s, h') \<longrightarrow>
      DeleteStrategy (h' (config s)) =
        (if DeleteStrategy (h (config s)) = [] then DeleteStrategyImmediate K
         else DeleteStrategy (h (config s))))
   \<and> (fst (NewSQSConsumer K env (fun_upd h p ((h p)\<lparr>DeleteStrategy := d\<rparr>)) conf) = Inl e
        \<longleftrightarrow> fst (NewSQSConsumer K env h conf) = Inl e)"
proof
  show "\<forall>s h'. NewSQSConsumer K env h conf = (Inr s, h') \<longrightarrow>
      DeleteStrategy (h' (config s)) =
        (if DeleteStrategy (h (config s)) = [] then DeleteStrategyImmediate K
         else DeleteStrategy (h (config s)))"
  proof (intro allI impI)
    fix s h'
    assume a: "NewSQSConsumer K env h conf = (Inr s, h')"
    obtain q where q: "config s = q" "h' = fun_upd h q (defaulted K (h q))"
      using NewSQSConsumer_success [OF a] by blast
    show "DeleteStrategy (h' (config s)) =
        (if DeleteStrategy (h (config s)) = [] then DeleteStrategyImmediate K
         else DeleteStrategy (h (config s)))"
      using q by (simp add: defaulted_def)
  qed
next
  show "fst (NewSQSConsumer K env (fun_upd h p ((h p)\<lparr>DeleteStrategy := d\<rparr>)) conf) = Inl e
        \<longleftrightarrow> fst (NewSQSConsumer K env h conf) = Inl e"
    unfolding NewSQSConsumer_def defaulting_steps
    by (simp add: Let_def split: sum.splits option.splits)
qed

theorem NewSQSConsumer_strategy_default_witness:
  "fst (NewSQSConsumer example_constants example_sdk set_store (Some 0))
     = Inr \<lparr>config = 0, sqs = ()\<rparr>
   \<and> DeleteStrategy (snd (NewSQSConsumer example_constants example_sdk set_store (Some 0)) 0)
     = ''SUCCESS''
   \<and> fst (NewSQSConsumer example_constants example_sdk unset_store (Some 0))
     = Inr \<lparr>config = 0, sqs = ()\<rparr>
   \<and> DeleteStrategy (snd (NewSQSConsumer example_constants example_sdk unset_store (Some 0)) 0)
     = ''IMMEDIATE''"
proof -
  have e1: "NewSQSConsumer example_constants example_sdk set_store (Some 0) =
      (Inr \<lparr>config = 0, sqs = ()\<rparr>,
       fun_upd set_store 0 (defaulted example_constants (set_store 0)))"
    by (rule NewSQSConsumer_example) (simp add: set_store_def set_conf_def)
  have e2: "NewSQSConsumer example_constants example_sdk unset_store (Some 0) =
      (Inr \<lparr>config = 0, sqs = ()\<rparr>,
       fun_upd unset_store 0 (defaulted example_constants (unset_store 0)))"
    by (rule NewSQSConsumer_example) (simp add: unset_store_def unset_conf_def)
  have "DeleteStrategy (fun_upd set_store 0 (defaulted example_constants (set_store 0))
          (config \<lparr>config = 0, sqs = ()\<rparr>)) = ''SUCCESS''"
    using NewSQSConsumer_strategy_default
      [of example_constants example_sdk set_store "Some 0"] e1
    by (simp add: set_store_def set_conf_def)
  moreover have "DeleteStrategy
      (fun_upd unset_store 0 (defaulted example_constants (unset_store 0))
          (config \<lparr>config = 0, sqs = ()\<rparr>)) = ''IMMEDIATE''"
    using NewSQSConsumer_strategy_default
      [of example_constants example_sdk unset_store "Some 0"] e2
    by (simp add: unset_store_def unset_conf_def example_constants_def)
  ultimately show ?thesis unfolding e1 e2 by simp
qed

subsection \<open>Reading a trace: basic facts\<close>


lemma successes_Nil [simp]: "successes [] rs = []"
  by (simp add: successes_def)

lemma successes_Cons:
  "successes (m # ms) (r # rs) = (if r = None then m # successes ms rs else successes ms rs)"
  by (simp add: successes_def)

subsection \<open>The handler loop\<close>

lemma consume_messages_Inr:
  "consume_messages K h s consumeFn t toDelete msgs = Inr (toDelete', t') \<Longrightarrow>
   \<exists>es. t' = t @ es
     \<and> (\<forall>e \<in> set es. is_consume e \<or> is_log e)
     \<and> map (\<lambda>(body, attrs). (Some body, attrs)) (handler_calls es)
         = map (\<lambda>m. (Body m, MessageAttributes m)) msgs
     \<and> length (handler_results es) = length msgs
     \<and> toDelete' = toDelete @
         (if DeleteStrategy (h (config s)) = DeleteStrategyOnSuccess K
          then successes msgs (handler_results es) else [])"
proof (induction msgs arbitrary: t toDelete)
  case Nil
  then show ?case by simp
next
  case (Cons msg msgs)
  from Cons.prems obtain body where body: "Body msg = Some body"
    by (cases "Body msg") simp_all
  let ?attrs = "MessageAttributes msg"
  let ?call = "consumeFn_call body ?attrs (consumeFn t body ?attrs)"
  show ?case
  proof (cases "consumeFn t body ?attrs")
    case None
    let ?acc = "if DeleteStrategy (h (config s)) = DeleteStrategyOnSuccess K
                then toDelete @ [msg] else toDelete"
    have "consume_messages K h s consumeFn (t @ [?call]) ?acc msgs = Inr (toDelete', t')"
      using Cons.prems body None by (simp add: Let_def split: if_splits)
    from Cons.IH [OF this] obtain es where es:
      "t' = (t @ [?call]) @ es" "\<forall>e \<in> set es. is_consume e \<or> is_log e"
      "map (\<lambda>(body, attrs). (Some body, attrs)) (handler_calls es)
         = map (\<lambda>m. (Body m, MessageAttributes m)) msgs"
      "length (handler_results es) = length msgs"
      "toDelete' = ?acc @
         (if DeleteStrategy (h (config s)) = DeleteStrategyOnSuccess K
          then successes msgs (handler_results es) else [])"
      by blast
    show ?thesis
      by (rule exI [of _ "?call # es"]) (use es body None in \<open>simp add: successes_Cons\<close>)
  next
    case (Some e)
    let ?log = "slog_Error ''error in consume function'' e"
    have "consume_messages K h s consumeFn ((t @ [?call]) @ [?log]) toDelete msgs
            = Inr (toDelete', t')"
      using Cons.prems body Some by (simp add: Let_def)
    from Cons.IH [OF this] obtain es where es:
      "t' = ((t @ [?call]) @ [?log]) @ es" "\<forall>e \<in> set es. is_consume e \<or> is_log e"
      "map (\<lambda>(body, attrs). (Some body, attrs)) (handler_calls es)
         = map (\<lambda>m. (Body m, MessageAttributes m)) msgs"
      "length (handler_results es) = length msgs"
      "toDelete' = toDelete @
         (if DeleteStrategy (h (config s)) = DeleteStrategyOnSuccess K
          then successes msgs (handler_results es) else [])"
      by blast
    show ?thesis
      by (rule exI [of _ "?call # ?log # es"]) (use es body Some in \<open>simp add: successes_Cons\<close>)
  qed
qed

lemma consume_messages_Inl:
  "consume_messages K h s consumeFn t toDelete msgs = Inl (p, t') \<Longrightarrow>
   \<exists>es. t' = t @ es \<and> (\<forall>e \<in> set es. is_consume e \<or> is_log e)
     \<and> (\<exists>m \<in> set msgs. Body m = None)"
proof (induction msgs arbitrary: t toDelete)
  case Nil
  then show ?case by simp
next
  case (Cons msg msgs)
  show ?case
  proof (cases "Body msg")
    case None
    then show ?thesis using Cons.prems by simp
  next
    case (Some body)
    let ?attrs = "MessageAttributes msg"
    let ?call = "consumeFn_call body ?attrs (consumeFn t body ?attrs)"
    show ?thesis
    proof (cases "consumeFn t body ?attrs")
      case None
      then obtain acc where
        "consume_messages K h s consumeFn (t @ [?call]) acc msgs = Inl (p, t')"
        using Cons.prems Some by (simp add: Let_def split: if_splits)
      from Cons.IH [OF this] obtain es where
        "t' = (t @ [?call]) @ es" "\<forall>e \<in> set es. is_consume e \<or> is_log e"
        "\<exists>m \<in> set msgs. Body m = None"
        by blast
      then show ?thesis
        by (intro exI [of _ "?call # es"]) simp
    next
      case (Some e)
      let ?log = "slog_Error ''error in consume function'' e"
      have "consume_messages K h s consumeFn ((t @ [?call]) @ [?log]) toDelete msgs
              = Inl (p, t')"
        using Cons.prems \<open>Body msg = Some body\<close> Some by (simp add: Let_def)
      from Cons.IH [OF this] obtain es where
        "t' = ((t @ [?call]) @ [?log]) @ es" "\<forall>e \<in> set es. is_consume e \<or> is_log e"
        "\<exists>m \<in> set msgs. Body m = None"
        by blast
      then show ?thesis
        by (intro exI [of _ "?call # ?log # es"]) simp
    qed
  qed
qed

subsection \<open>The deletion of a list of messages\<close>

lemma make_batch_length: "make_batch c = Inr batch \<Longrightarrow> length batch = length c"
  by (induction c arbitrary: batch) (auto split: option.splits sum.splits)


lemma make_batch_append:
  "make_batch xs = Inr a \<Longrightarrow> make_batch ys = Inr b \<Longrightarrow> make_batch (xs @ ys) = Inr (a @ b)"
  by (induction xs arbitrary: a) (auto split: option.splits sum.splits)

lemma in_butlast_or_last: "x \<in> set xs \<Longrightarrow> x \<in> set (butlast xs) \<or> x = last xs"
  by (induction xs) auto

lemma chunk_loop_member:
  assumes "0 < k" "c \<in> set (chunk_loop rows k [])"
  shows "1 \<le> length c \<and> length c \<le> k"
proof -
  have ne: "chunk_loop rows k [] \<noteq> []" using assms(2) by auto
  from in_butlast_or_last [OF assms(2)] show ?thesis
  proof
    assume "c \<in> set (butlast (chunk_loop rows k []))"
    with assms(1) have "length c = k" by (rule butlast_chunk_loop)
    then show ?thesis using assms(1) by simp
  next
    assume "c = last (chunk_loop rows k [])"
    then show ?thesis using last_chunk_loop [OF assms(1) ne] by simp
  qed
qed

lemma delete_chunks_calls:
  "delete_chunks h s t cs = (r, t') \<Longrightarrow>
   \<exists>ds pre rest. t' = t @ ds \<and> cs = pre @ rest
     \<and> (\<forall>ev \<in> set ds. \<exists>c \<in> set cs. \<exists>batch err. make_batch c = Inr batch
           \<and> ev = DeleteMessageBatch_call
                   \<lparr>Delete_Entries = batch, Delete_QueueUrl = Queue (h (config s))\<rparr> err)
     \<and> make_batch (concat pre) = Inr (submitted ds)
     \<and> (r = Inr None \<longrightarrow> rest = [])"
proof (induction cs arbitrary: t)
  case Nil
  then show ?case by simp
next
  case (Cons c cs)
  show ?case
  proof (cases "make_batch c")
    case (Inl p)
    then have "t' = t" using Cons.prems by simp
    moreover have "r \<noteq> Inr None" using Cons.prems Inl by auto
    ultimately show ?thesis
      by (intro exI [of _ "[]"] exI [of _ "c # cs"]) simp
  next
    case (Inr batch)
    let ?input = "\<lparr>Delete_Entries = batch, Delete_QueueUrl = Queue (h (config s))\<rparr>"
    let ?err = "DeleteMessageBatch (sqs s) t ?input"
    let ?ev = "DeleteMessageBatch_call ?input ?err"
    show ?thesis
    proof (cases ?err)
      case (Some e)
      then have "t' = t @ [?ev]" "r \<noteq> Inr None"
        using Cons.prems Inr by (auto simp: Let_def)
      then show ?thesis
        using Inr
        by (intro exI [of _ "[?ev]"] exI [of _ "[c]"] exI [of _ cs]) simp
    next
      case None
      then have "delete_chunks h s (t @ [?ev]) cs = (r, t')"
        using Cons.prems Inr by (simp add: Let_def)
      from Cons.IH [OF this] obtain ds pre rest where IH:
        "t' = (t @ [?ev]) @ ds" "cs = pre @ rest"
        "\<forall>ev \<in> set ds. \<exists>c \<in> set cs. \<exists>batch err. make_batch c = Inr batch
           \<and> ev = DeleteMessageBatch_call
                   \<lparr>Delete_Entries = batch, Delete_QueueUrl = Queue (h (config s))\<rparr> err"
        "make_batch (concat pre) = Inr (submitted ds)"
        "r = Inr None \<longrightarrow> rest = []"
        by blast
      have a: "t' = t @ (?ev # ds)" using IH(1) by simp
      have b: "c # cs = (c # pre) @ rest" using IH(2) by simp
      have c: "\<forall>ev \<in> set (?ev # ds). \<exists>c' \<in> set (c # cs). \<exists>batch err. make_batch c' = Inr batch
           \<and> ev = DeleteMessageBatch_call
                   \<lparr>Delete_Entries = batch, Delete_QueueUrl = Queue (h (config s))\<rparr> err"
        using IH(3) Inr by auto
      have d: "make_batch (concat (c # pre)) = Inr (submitted (?ev # ds))"
        using make_batch_append [OF Inr IH(4)] by simp
      show ?thesis using a b c d IH(5) by blast
    qed
  qed
qed


lemma deleteSqsMessages_chunks:
  "msg \<noteq> [] \<Longrightarrow> deleteSqsMessages h s t msg = delete_chunks h s t (chunk_loop msg 10 [])"
  using chunk_positive [of 10 msg] by (simp add: deleteSqsMessages_def)

lemma deleteSqsMessages_calls:
  assumes "deleteSqsMessages h s t msg = (r, t')"
  shows "\<exists>ds pre rest. t' = t @ ds \<and> msg = pre @ rest
     \<and> (\<forall>ev \<in> set ds. \<exists>input err. ev = DeleteMessageBatch_call input err
           \<and> 1 \<le> length (Delete_Entries input) \<and> length (Delete_Entries input) \<le> 10
           \<and> Delete_QueueUrl input = Queue (h (config s)))
     \<and> make_batch pre = Inr (submitted ds)
     \<and> (r = Inr None \<longrightarrow> rest = [])"
proof (cases "msg = []")
  case True
  then have "t' = t" using assms by (simp add: deleteSqsMessages_def)
  then show ?thesis using True by simp
next
  case False
  let ?cs = "chunk_loop msg 10 []"
  have "delete_chunks h s t ?cs = (r, t')"
    using assms False by (simp add: deleteSqsMessages_chunks)
  from delete_chunks_calls [OF this] obtain ds pre rest where d:
    "t' = t @ ds" "?cs = pre @ rest"
    "\<forall>ev \<in> set ds. \<exists>c \<in> set ?cs. \<exists>batch err. make_batch c = Inr batch
       \<and> ev = DeleteMessageBatch_call
               \<lparr>Delete_Entries = batch, Delete_QueueUrl = Queue (h (config s))\<rparr> err"
    "make_batch (concat pre) = Inr (submitted ds)"
    "r = Inr None \<longrightarrow> rest = []"
    by blast
  have "concat ?cs = msg" by (rule concat_chunk_loop)
  then have a: "msg = concat pre @ concat rest" using d(2) by simp
  have b: "\<forall>ev \<in> set ds. \<exists>input err. ev = DeleteMessageBatch_call input err
           \<and> 1 \<le> length (Delete_Entries input) \<and> length (Delete_Entries input) \<le> 10
           \<and> Delete_QueueUrl input = Queue (h (config s))"
  proof
    fix ev assume "ev \<in> set ds"
    with d(3) obtain c batch err where c: "c \<in> set ?cs" "make_batch c = Inr batch"
      "ev = DeleteMessageBatch_call
               \<lparr>Delete_Entries = batch, Delete_QueueUrl = Queue (h (config s))\<rparr> err"
      by blast
    have "1 \<le> length c \<and> length c \<le> 10"
      using chunk_loop_member [of 10 c msg] c(1) by simp
    then have "1 \<le> length batch \<and> length batch \<le> 10"
      using make_batch_length [OF c(2)] by simp
    then show "\<exists>input err. ev = DeleteMessageBatch_call input err
           \<and> 1 \<le> length (Delete_Entries input) \<and> length (Delete_Entries input) \<le> 10
           \<and> Delete_QueueUrl input = Queue (h (config s))"
      using c(3) by simp
  qed
  have e: "r = Inr None \<longrightarrow> concat rest = []" using d(5) by simp
  show ?thesis using d(1) a b d(4) e by blast
qed


text \<open>
  Claim C7. Every event that \<^verbatim>\<open>deleteSqsMessages\<close> adds to the trace is a
  \<^verbatim>\<open>DeleteMessageBatch\<close> call with at least one and at most ten entries; and for an empty list
  of messages it returns nil and adds no event: the transport is not called.
\<close>

theorem deleteSqsMessages_batches:
  assumes "deleteSqsMessages h s t msg = (r, t')"
  shows "\<exists>ds. t' = t @ ds
     \<and> (\<forall>ev \<in> set ds. \<exists>input err. ev = DeleteMessageBatch_call input err
           \<and> 1 \<le> length (Delete_Entries input) \<and> length (Delete_Entries input) \<le> 10)
     \<and> (msg = [] \<longrightarrow> r = Inr None \<and> ds = [])"
proof -
  from deleteSqsMessages_calls [OF assms] obtain ds where d: "t' = t @ ds"
    and calls: "\<forall>ev \<in> set ds. \<exists>input err. ev = DeleteMessageBatch_call input err
           \<and> 1 \<le> length (Delete_Entries input) \<and> length (Delete_Entries input) \<le> 10
           \<and> Delete_QueueUrl input = Queue (h (config s))"
    by (elim exE conjE)
  have sizes: "\<forall>ev \<in> set ds. \<exists>input err. ev = DeleteMessageBatch_call input err
           \<and> 1 \<le> length (Delete_Entries input) \<and> length (Delete_Entries input) \<le> 10"
  proof
    fix ev assume "ev \<in> set ds"
    with calls have "\<exists>input err. ev = DeleteMessageBatch_call input err
           \<and> 1 \<le> length (Delete_Entries input) \<and> length (Delete_Entries input) \<le> 10
           \<and> Delete_QueueUrl input = Queue (h (config s))" by (rule bspec)
    then show "\<exists>input err. ev = DeleteMessageBatch_call input err
           \<and> 1 \<le> length (Delete_Entries input) \<and> length (Delete_Entries input) \<le> 10"
      by (elim exE conjE) (intro exI conjI)
  qed
  have empty: "msg = [] \<longrightarrow> r = Inr None \<and> ds = []"
  proof
    assume "msg = []"
    then have "(r, t') = (Inr None, t)" using assms by (simp add: deleteSqsMessages_def)
    then show "r = Inr None \<and> ds = []" using d by simp
  qed
  show ?thesis
    by (rule exI [of _ ds]) (intro conjI d sizes empty)
qed

theorem deleteSqsMessages_batches_witness:
  "deleteSqsMessages set_store example_worker []
     [msg_A, msg_B, msg_C, msg_A, msg_B, msg_C, msg_A, msg_B, msg_C, msg_A, msg_B] =
     (Inr None,
      [DeleteMessageBatch_call
         \<lparr>Delete_Entries = [\<lparr>Entry_Id = ''A'', Entry_ReceiptHandle = Some ''ra''\<rparr>,
                            \<lparr>Entry_Id = ''B'', Entry_ReceiptHandle = Some ''rb''\<rparr>,
                            \<lparr>Entry_Id = ''C'', Entry_ReceiptHandle = Some ''rc''\<rparr>,
                            \<lparr>Entry_Id = ''A'', Entry_ReceiptHandle = Some ''ra''\<rparr>,
                            \<lparr>Entry_Id = ''B'', Entry_ReceiptHandle = Some ''rb''\<rparr>,
                            \<lparr>Entry_Id = ''C'', Entry_ReceiptHandle = Some ''rc''\<rparr>,
                            \<lparr>Entry_Id = ''A'', Entry_ReceiptHandle = Some ''ra''\<rparr>,
                            \<lparr>Entry_Id = ''B'', Entry_ReceiptHandle = Some ''rb''\<rparr>,
                            \<lparr>Entry_Id = ''C'', Entry_ReceiptHandle = Some ''rc''\<rparr>,
                            \<lparr>Entry_Id = ''A'', Entry_ReceiptHandle = Some ''ra''\<rparr>],
          Delete_QueueUrl = ''jobs''\<rparr> None,
       DeleteMessageBatch_call
         \<lparr>Delete_Entries = [\<lparr>Entry_Id = ''B'', Entry_ReceiptHandle = Some ''rb''\<rparr>],
          Delete_QueueUrl = ''jobs''\<rparr> None])
   \<and> deleteSqsMessages set_store example_worker [] [] = (Inr None, [])"
proof -
  have ids: "MessageId msg_A = Some ''A''" "MessageId msg_B = Some ''B''"
    "MessageId msg_C = Some ''C''" "ReceiptHandle msg_A = Some ''ra''"
    "ReceiptHandle msg_B = Some ''rb''" "ReceiptHandle msg_C = Some ''rc''"
    by (simp_all add: msg_A_def msg_B_def msg_C_def)
  have e: "deleteSqsMessages set_store example_worker []
     [msg_A, msg_B, msg_C, msg_A, msg_B, msg_C, msg_A, msg_B, msg_C, msg_A, msg_B] =
     (Inr None,
      [DeleteMessageBatch_call
         \<lparr>Delete_Entries = [\<lparr>Entry_Id = ''A'', Entry_ReceiptHandle = Some ''ra''\<rparr>,
                            \<lparr>Entry_Id = ''B'', Entry_ReceiptHandle = Some ''rb''\<rparr>,
                            \<lparr>Entry_Id = ''C'', Entry_ReceiptHandle = Some ''rc''\<rparr>,
                            \<lparr>Entry_Id = ''A'', Entry_ReceiptHandle = Some ''ra''\<rparr>,
                            \<lparr>Entry_Id = ''B'', Entry_ReceiptHandle = Some ''rb''\<rparr>,
                            \<lparr>Entry_Id = ''C'', Entry_ReceiptHandle = Some ''rc''\<rparr>,
                            \<lparr>Entry_Id = ''A'', Entry_ReceiptHandle = Some ''ra''\<rparr>,
                            \<lparr>Entry_Id = ''B'', Entry_ReceiptHandle = Some ''rb''\<rparr>,
                            \<lparr>Entry_Id = ''C'', Entry_ReceiptHandle = Some ''rc''\<rparr>,
                            \<lparr>Entry_Id = ''A'', Entry_ReceiptHandle = Some ''ra''\<rparr>],
          Delete_QueueUrl = ''jobs''\<rparr> None,
       DeleteMessageBatch_call
         \<lparr>Delete_Entries = [\<lparr>Entry_Id = ''B'', Entry_ReceiptHandle = Some ''rb''\<rparr>],
          Delete_QueueUrl = ''jobs''\<rparr> None])"
    by (simp add: deleteSqsMessages_def chunk_def signed_divide_int_def chunk_loop.simps
        example_worker_def example_client_def set_store_def set_conf_def ids)
  obtain r t' where n: "deleteSqsMessages set_store example_worker [] [] = (r, t')"
    by (cases "deleteSqsMessages set_store example_worker [] []")
  have "r = Inr None \<and> t' = []"
    using deleteSqsMessages_batches [OF n] by simp
  then show ?thesis using e n by simp
qed




subsection \<open>How a worker ends\<close>





lemma body_cancelled:
  "ctx t \<Longrightarrow> handleMessages_body K h s ctx consumeFn t = (Some (Returned None), t @ [Done True])"
  by (simp add: handleMessages_body_def)

lemma body_receive_error:
  "\<not> ctx t \<Longrightarrow> ReceiveMessage (sqs s) (t @ [Done False]) (pullMessagesRequest h s) = Inl err \<Longrightarrow>
   handleMessages_body K h s ctx consumeFn t =
     (Some (Returned (Some err)),
      t @ [Done False, ReceiveMessage_call (pullMessagesRequest h s) (Inl err)])"
  by (simp add: handleMessages_body_def Let_def)

lemma body_empty:
  "\<not> ctx t \<Longrightarrow> ReceiveMessage (sqs s) (t @ [Done False]) (pullMessagesRequest h s) = Inr [] \<Longrightarrow>
   handleMessages_body K h s ctx consumeFn t =
     (None, t @ [Done False, ReceiveMessage_call (pullMessagesRequest h s) (Inr []),
                 Sleep 1000000000])"
  by (simp add: handleMessages_body_def Let_def)

lemma body_immediate:
  "\<not> ctx t \<Longrightarrow> ReceiveMessage (sqs s) (t @ [Done False]) (pullMessagesRequest h s) = Inr msgs \<Longrightarrow>
   msgs \<noteq> [] \<Longrightarrow> DeleteStrategy (h (config s)) = DeleteStrategyImmediate K \<Longrightarrow>
   handleMessages_body K h s ctx consumeFn t =
     (case deleteSqsMessages h s
             (t @ [Done False, ReceiveMessage_call (pullMessagesRequest h s) (Inr msgs)]) msgs of
        (Inl p, t2) \<Rightarrow> (Some (Panicked p), t2)
      | (Inr (Some err), t2) \<Rightarrow> (Some (Returned (Some err)), t2)
      | (Inr None, t2) \<Rightarrow> process_and_delete K h s consumeFn t2 msgs)"
  by (simp add: handleMessages_body_def Let_def)

lemma body_not_immediate:
  "\<not> ctx t \<Longrightarrow> ReceiveMessage (sqs s) (t @ [Done False]) (pullMessagesRequest h s) = Inr msgs \<Longrightarrow>
   msgs \<noteq> [] \<Longrightarrow> DeleteStrategy (h (config s)) \<noteq> DeleteStrategyImmediate K \<Longrightarrow>
   handleMessages_body K h s ctx consumeFn t =
     process_and_delete K h s consumeFn
       (t @ [Done False, ReceiveMessage_call (pullMessagesRequest h s) (Inr msgs)]) msgs"
  by (simp add: handleMessages_body_def Let_def)








subsection \<open>The events of one poll cycle\<close>

lemma deleteSqsMessages_submits:
  assumes "deleteSqsMessages h s t msg = (rd, t')"
  shows "\<exists>ds pre rest. t' = t @ ds \<and> msg = pre @ rest \<and> (\<forall>ev \<in> set ds. is_delete ev)
     \<and> make_batch pre = Inr (submitted ds) \<and> (rd = Inr None \<longrightarrow> rest = [])"
proof -
  from deleteSqsMessages_calls [OF assms] obtain ds pre rest where d: "t' = t @ ds"
    "msg = pre @ rest"
    "\<forall>ev \<in> set ds. \<exists>input err. ev = DeleteMessageBatch_call input err
           \<and> 1 \<le> length (Delete_Entries input) \<and> length (Delete_Entries input) \<le> 10
           \<and> Delete_QueueUrl input = Queue (h (config s))"
    "make_batch pre = Inr (submitted ds)" "rd = Inr None \<longrightarrow> rest = []"
    by (elim exE conjE)
  have "\<forall>ev \<in> set ds. is_delete ev"
  proof
    fix ev assume "ev \<in> set ds"
    with d(3) have "\<exists>input err. ev = DeleteMessageBatch_call input err
           \<and> 1 \<le> length (Delete_Entries input) \<and> length (Delete_Entries input) \<le> 10
           \<and> Delete_QueueUrl input = Queue (h (config s))" by (rule bspec)
    then obtain input err where "ev = DeleteMessageBatch_call input err" by (elim exE conjE)
    then show "is_delete ev" by simp
  qed
  then show ?thesis using d(1) d(2) d(4) d(5)
    by (intro exI [of _ ds] exI [of _ pre] exI [of _ rest] conjI)
qed









subsection \<open>Idle polls\<close>

lemma sleeps_when_idle_none:
  assumes "\<forall>e \<in> set es. \<not> empty_receive e"
  shows "sleeps_when_idle es"
  unfolding sleeps_when_idle_def
proof (intro allI impI)
  fix i assume "i < length es \<and> empty_receive (es ! i)"
  then have "es ! i \<in> set es" "empty_receive (es ! i)" by simp_all
  with assms show "Suc i < length es \<and> es ! Suc i = Sleep 1000000000" by blast
qed

lemma sleeps_when_idle_append:
  assumes "sleeps_when_idle es1" "sleeps_when_idle es2"
  shows "sleeps_when_idle (es1 @ es2)"
  unfolding sleeps_when_idle_def
proof (intro allI impI)
  fix i assume a: "i < length (es1 @ es2) \<and> empty_receive ((es1 @ es2) ! i)"
  show "Suc i < length (es1 @ es2) \<and> (es1 @ es2) ! Suc i = Sleep 1000000000"
  proof (cases "i < length es1")
    case True
    then have "empty_receive (es1 ! i)" using a by (simp add: nth_append)
    then have "Suc i < length es1 \<and> es1 ! Suc i = Sleep 1000000000"
      using assms(1) True by (simp add: sleeps_when_idle_def)
    then show ?thesis by (simp add: nth_append)
  next
    case False
    define j where "j = i - length es1"
    have i: "i = length es1 + j" using False by (simp add: j_def)
    have "j < length es2" "empty_receive (es2 ! j)" using a by (simp_all add: i)
    then have "Suc j < length es2 \<and> es2 ! Suc j = Sleep 1000000000"
      using assms(2) by (simp add: sleeps_when_idle_def)
    moreover have "(es1 @ es2) ! Suc i = es2 ! Suc j"
      using nth_append_length_plus [of es1 es2 "Suc j"] by (simp add: i)
    ultimately show ?thesis by (simp add: i)
  qed
qed

lemma worker_events_not_idle:
  "\<forall>e \<in> set es. is_consume e \<or> is_log e \<or> is_delete e \<Longrightarrow> \<forall>e \<in> set es. \<not> empty_receive e"
proof
  fix e assume "\<forall>e \<in> set es. is_consume e \<or> is_log e \<or> is_delete e" "e \<in> set es"
  then have "is_consume e \<or> is_log e \<or> is_delete e" by blast
  then show "\<not> empty_receive e" by (cases e) auto
qed

lemma process_and_delete_events:
  assumes "process_and_delete K h s consumeFn t msgs = (r, t')"
  shows "\<exists>es. t' = t @ es \<and> (\<forall>e \<in> set es. is_consume e \<or> is_log e \<or> is_delete e)"
proof (cases "consume_messages K h s consumeFn t [] msgs")
  case (Inl a)
  obtain p t1 where a: "a = (p, t1)" by (cases a)
  then have r: "t' = t1" using assms Inl by (simp add: process_and_delete_def)
  from consume_messages_Inl [of K h s consumeFn t "[]" msgs p t1] Inl a
  obtain es where es: "t1 = t @ es" "\<forall>e \<in> set es. is_consume e \<or> is_log e" by auto
  then show ?thesis using r by (intro exI [of _ es]) auto
next
  case (Inr b)
  obtain toDelete t1 where b: "b = (toDelete, t1)" by (cases b)
  from consume_messages_Inr [of K h s consumeFn t "[]" msgs toDelete t1] Inr b
  obtain es where es: "t1 = t @ es" "\<forall>e \<in> set es. is_consume e \<or> is_log e" by auto
  obtain rd t2 where d: "deleteSqsMessages h s t1 toDelete = (rd, t2)"
    by (cases "deleteSqsMessages h s t1 toDelete")
  have r: "t' = t2"
    using assms Inr b d by (auto simp: process_and_delete_def split: sum.splits option.splits)
  from deleteSqsMessages_submits [OF d] obtain ds where ds: "t2 = t1 @ ds"
    "\<forall>ev \<in> set ds. is_delete ev"
    by (elim exE conjE)
  show ?thesis using es ds r by (intro exI [of _ "es @ ds"]) auto
qed

lemma handleMessages_body_idle:
  assumes "handleMessages_body K h s ctx consumeFn t = (r, t')"
  shows "\<exists>es. t' = t @ es \<and> sleeps_when_idle es"
proof (cases "ctx t")
  case True
  then have "t' = t @ [Done True]" using assms by (simp add: body_cancelled)
  then show ?thesis by (intro exI [of _ "[Done True]"]) (simp add: sleeps_when_idle_none)
next
  case False
  let ?req = "pullMessagesRequest h s"
  show ?thesis
  proof (cases "ReceiveMessage (sqs s) (t @ [Done False]) ?req")
    case (Inl err)
    then have "t' = t @ [Done False, ReceiveMessage_call ?req (Inl err)]"
      using assms False by (simp add: body_receive_error)
    then show ?thesis
      by (intro exI [of _ "[Done False, ReceiveMessage_call ?req (Inl err)]"])
         (simp add: sleeps_when_idle_none)
  next
    case (Inr msgs)
    let ?pre = "[Done False, ReceiveMessage_call ?req (Inr msgs)]"
    show ?thesis
    proof (cases "msgs = []")
      case True
      then have "t' = t @ (?pre @ [Sleep 1000000000])"
        using assms False Inr by (simp add: body_empty)
      moreover have "sleeps_when_idle (?pre @ [Sleep 1000000000])"
        by (auto simp: sleeps_when_idle_def nth_Cons split: nat.splits)
      ultimately show ?thesis by (intro exI [of _ "?pre @ [Sleep 1000000000]"]) simp
    next
      case ne: False
      then have pre: "sleeps_when_idle ?pre"
        by (intro sleeps_when_idle_none) (cases msgs, simp_all)
      have tail: "\<exists>es. t' = (t @ ?pre) @ es \<and> (\<forall>e \<in> set es. is_consume e \<or> is_log e \<or> is_delete e)"
      proof (cases "DeleteStrategy (h (config s)) = DeleteStrategyImmediate K")
        case no: False
        then have "process_and_delete K h s consumeFn (t @ ?pre) msgs = (r, t')"
          using assms False Inr ne by (simp add: body_not_immediate)
        then show ?thesis by (rule process_and_delete_events)
      next
        case True
        obtain rd t2 where d: "deleteSqsMessages h s (t @ ?pre) msgs = (rd, t2)"
          by (cases "deleteSqsMessages h s (t @ ?pre) msgs")
        from deleteSqsMessages_submits [OF d] obtain ds where ds: "t2 = (t @ ?pre) @ ds"
          "\<forall>ev \<in> set ds. is_delete ev"
          by (elim exE conjE)
        have b: "handleMessages_body K h s ctx consumeFn t =
            (case (rd, t2) of
               (Inl p, t2) \<Rightarrow> (Some (Panicked p), t2)
             | (Inr (Some err), t2) \<Rightarrow> (Some (Returned (Some err)), t2)
             | (Inr None, t2) \<Rightarrow> process_and_delete K h s consumeFn t2 msgs)"
          using False Inr ne True d by (simp add: body_immediate)
        show ?thesis
        proof (cases "rd = Inr None")
          case stop: False
          then have "t' = t2" using assms b by (auto split: sum.splits option.splits)
          then show ?thesis using ds by (intro exI [of _ ds]) auto
        next
          case go: True
          then have "process_and_delete K h s consumeFn t2 msgs = (r, t')"
            using assms b by simp
          from process_and_delete_events [OF this] obtain es where
            es: "t' = t2 @ es" "\<forall>e \<in> set es. is_consume e \<or> is_log e \<or> is_delete e"
            by (elim exE conjE)
          show ?thesis using ds es by (intro exI [of _ "ds @ es"]) auto
        qed
      qed
      then obtain es where es: "t' = (t @ ?pre) @ es"
        "\<forall>e \<in> set es. is_consume e \<or> is_log e \<or> is_delete e"
        by (elim exE conjE)
      have "sleeps_when_idle es"
        using worker_events_not_idle [OF es(2)] by (rule sleeps_when_idle_none)
      with pre have "sleeps_when_idle (?pre @ es)" by (rule sleeps_when_idle_append)
      then show ?thesis using es(1) by (intro exI [of _ "?pre @ es"]) simp
    qed
  qed
qed

lemma handleMessages_idle:
  "handleMessages K h s ctx consumeFn fuel t = (r, t') \<Longrightarrow>
   \<exists>es. t' = t @ es \<and> sleeps_when_idle es"
proof (induction fuel arbitrary: t)
  case 0
  then have "t' = t" by simp
  then show ?case by (intro exI [of _ "[]"]) (simp add: sleeps_when_idle_def)
next
  case (Suc fuel)
  obtain rb t1 where b: "handleMessages_body K h s ctx consumeFn t = (rb, t1)"
    by (cases "handleMessages_body K h s ctx consumeFn t")
  from handleMessages_body_idle [OF b] obtain es1 where
    es1: "t1 = t @ es1" "sleeps_when_idle es1" by (elim exE conjE)
  show ?case
  proof (cases rb)
    case None
    then have "handleMessages K h s ctx consumeFn fuel t1 = (r, t')"
      using Suc.prems b by simp
    from Suc.IH [OF this] obtain es2 where es2: "t' = t1 @ es2" "sleeps_when_idle es2"
      by (elim exE conjE)
    have "sleeps_when_idle (es1 @ es2)" using es1(2) es2(2) by (rule sleeps_when_idle_append)
    then show ?thesis using es1(1) es2(1) by (intro exI [of _ "es1 @ es2"]) simp
  next
    case (Some x)
    then have "t' = t1" using Suc.prems b by simp
    then show ?thesis using es1 by (intro exI [of _ es1]) simp
  qed
qed

text \<open>
  Claim C9. When the context is not cancelled and the receive call answers with no message,
  the pass through the loop consists of the test of the context, the receive call and a
  sleep of one second (\<open>1000000000\<close> nanoseconds), with no deletion and no handler call, and
  the loop goes on from there: whatever the worker does next, the next receive call
  included, comes after the sleep. And in every trace of the worker, each receive call
  that answered with no message is followed at once by that sleep.
\<close>

theorem idle_poll_sleeps:
  "(\<not> ctx t \<and> ReceiveMessage (sqs s) (t @ [Done False]) (pullMessagesRequest h s) = Inr [] \<longrightarrow>
      handleMessages_body K h s ctx consumeFn t =
        (None, t @ [Done False, ReceiveMessage_call (pullMessagesRequest h s) (Inr []),
                    Sleep 1000000000])
      \<and> handleMessages K h s ctx consumeFn (Suc fuel) t =
          handleMessages K h s ctx consumeFn fuel
            (t @ [Done False, ReceiveMessage_call (pullMessagesRequest h s) (Inr []),
                  Sleep 1000000000]))
   \<and> (\<forall>r t'. handleMessages K h s ctx consumeFn fuel t = (r, t') \<longrightarrow>
        (\<exists>es. t' = t @ es
           \<and> (\<forall>i. i < length es \<and> empty_receive (es ! i) \<longrightarrow>
                  Suc i < length es \<and> es ! Suc i = Sleep 1000000000)))"
proof (intro conjI impI allI)
  assume a: "\<not> ctx t \<and>
    ReceiveMessage (sqs s) (t @ [Done False]) (pullMessagesRequest h s) = Inr []"
  then show b: "handleMessages_body K h s ctx consumeFn t =
        (None, t @ [Done False, ReceiveMessage_call (pullMessagesRequest h s) (Inr []),
                    Sleep 1000000000])"
    by (simp add: body_empty)
  then show "handleMessages K h s ctx consumeFn (Suc fuel) t =
          handleMessages K h s ctx consumeFn fuel
            (t @ [Done False, ReceiveMessage_call (pullMessagesRequest h s) (Inr []),
                  Sleep 1000000000])"
    by simp
next
  fix r t'
  assume "handleMessages K h s ctx consumeFn fuel t = (r, t')"
  from handleMessages_idle [OF this] obtain es where
    es: "t' = t @ es" "sleeps_when_idle es" by (elim exE conjE)
  have "\<forall>i. i < length es \<and> empty_receive (es ! i) \<longrightarrow>
                  Suc i < length es \<and> es ! Suc i = Sleep 1000000000"
    using es(2) by (simp only: sleeps_when_idle_def)
  with es(1) show "\<exists>es. t' = t @ es
           \<and> (\<forall>i. i < length es \<and> empty_receive (es ! i) \<longrightarrow>
                  Suc i < length es \<and> es ! Suc i = Sleep 1000000000)"
    by (intro exI [of _ es] conjI)
qed

theorem idle_poll_sleeps_witness:
  "handleMessages example_constants set_store idle_worker example_ctx example_handler
     (Suc (Suc 0)) [] =
   (None,
    [Done False, ReceiveMessage_call (pullMessagesRequest set_store idle_worker) (Inr []),
     Sleep 1000000000,
     Done False, ReceiveMessage_call (pullMessagesRequest set_store idle_worker) (Inr []),
     Sleep 1000000000])"
proof -
  let ?cycle = "[Done False, ReceiveMessage_call (pullMessagesRequest set_store idle_worker) (Inr []),
     Sleep 1000000000]"
  have 1: "\<not> example_ctx [] \<and>
      ReceiveMessage (sqs idle_worker) ([] @ [Done False])
        (pullMessagesRequest set_store idle_worker) = Inr []"
    by (simp add: example_ctx_def idle_worker_def)
  have 2: "\<not> example_ctx ([] @ ?cycle) \<and>
      ReceiveMessage (sqs idle_worker) (([] @ ?cycle) @ [Done False])
        (pullMessagesRequest set_store idle_worker) = Inr []"
    by (simp add: example_ctx_def idle_worker_def)
  have "handleMessages example_constants set_store idle_worker example_ctx example_handler
          (Suc (Suc 0)) [] =
        handleMessages example_constants set_store idle_worker example_ctx example_handler
          (Suc 0) ([] @ ?cycle)"
    by (rule idle_poll_sleeps [of example_ctx "[]" idle_worker set_store example_constants
          example_handler "Suc 0", THEN conjunct1, THEN mp, THEN conjunct2, OF 1])
  also have "\<dots> =
        handleMessages example_constants set_store idle_worker example_ctx example_handler
          0 (([] @ ?cycle) @ ?cycle)"
    by (rule idle_poll_sleeps [of example_ctx "[] @ ?cycle" idle_worker set_store
          example_constants example_handler 0, THEN conjunct1, THEN mp, THEN conjunct2, OF 2])
  finally show ?thesis by simp
qed

end
